theory Spec2Isabelle
  imports Main "HOL-Library.Word"
begin

unbundle bit_operations_syntax

section \<open>Unique identifiers (snailviewer/uid.hpp)\<close>

text \<open>
  A \<open>uid\<close> is a struct of sixteen \<open>char\<close>s: \<open>module[5]\<close>, \<open>author[3]\<close>, \<open>type\<close> and
  \<open>name[7]\<close>, with no padding (the header asserts \<open>sizeof(uid) == 16\<close>). The fixed-size
  arrays are tuples of bytes. \<open>uidType\<close> is an \<open>enum class\<close> whose underlying type is
  \<open>char\<close>, so the field can hold every \<open>char\<close> value; its five enumerators are constants.
\<close>

type_synonym byte = "8 word"
type_synonym long = "64 word"
type_synonym size_t = "64 word"

type_synonym uidType = byte

definition uidType_module :: uidType where "uidType_module = 0"
definition uidType_event :: uidType where "uidType_event = 1"
definition uidType_widget :: uidType where "uidType_widget = 2"
definition uidType_keybind :: uidType where "uidType_keybind = 3"
definition uidType_color :: uidType where "uidType_color = 4"

record uid =
  module :: "byte \<times> byte \<times> byte \<times> byte \<times> byte"
  author :: "byte \<times> byte \<times> byte"
  type :: uidType
  name :: "byte \<times> byte \<times> byte \<times> byte \<times> byte \<times> byte \<times> byte"

text \<open>The sixteen bytes of the object, in address order.\<close>

definition uid_bytes :: "uid \<Rightarrow> byte list" where
  "uid_bytes u =
     (case module u of (m0, m1, m2, m3, m4) \<Rightarrow>
      case author u of (a0, a1, a2) \<Rightarrow>
      case name u of (n0, n1, n2, n3, n4, n5, n6) \<Rightarrow>
        [m0, m1, m2, m3, m4, a0, a1, a2, type u, n0, n1, n2, n3, n4, n5, n6])"

text \<open>
  \<open>reinterpret_cast<const long*>(this)\<close> reads the object as two \<open>long\<close>s, 64 bits
  each (LP64), in the byte order of the machine, which is a parameter of the model.
\<close>

datatype endian = LittleEndian | BigEndian

fun le_bytes :: "byte list \<Rightarrow> long" where
  "le_bytes [] = 0"
| "le_bytes (b # bs) = ucast b OR push_bit 8 (le_bytes bs)"

definition long_of_bytes :: "endian \<Rightarrow> byte list \<Rightarrow> long" where
  "long_of_bytes e bs = (case e of LittleEndian \<Rightarrow> le_bytes bs | BigEndian \<Rightarrow> le_bytes (rev bs))"

definition uid_long :: "endian \<Rightarrow> uid \<Rightarrow> nat \<Rightarrow> long" where
  "uid_long e u i = long_of_bytes e (take 8 (drop (8 * i) (uid_bytes u)))"

text \<open>\<open>uid::operator<\<close>: \<open>if(a[0] == b[0]) return a[1] < b[1]; else return a[0] < b[0];\<close>
  on signed \<open>long\<close>s.\<close>

definition uid_less :: "endian \<Rightarrow> uid \<Rightarrow> uid \<Rightarrow> bool" where
  "uid_less e this opponent =
     (if uid_long e this 0 = uid_long e opponent 0
      then uid_long e this 1 <s uid_long e opponent 1
      else uid_long e this 0 <s uid_long e opponent 0)"

text \<open>\<open>uid::operator==\<close>: \<open>return a[0] == b[0] && a[1] == b[1];\<close>\<close>

definition uid_eq :: "endian \<Rightarrow> uid \<Rightarrow> uid \<Rightarrow> bool" where
  "uid_eq e this opponent =
     (uid_long e this 0 = uid_long e opponent 0 \<and> uid_long e this 1 = uid_long e opponent 1)"

definition uid_hasType :: "uid \<Rightarrow> uidType \<Rightarrow> bool" where
  "uid_hasType u expectedType = (type u = expectedType)"

definition uid_null :: "uidType \<Rightarrow> uid" where
  "uid_null t = \<lparr>module = (0, 0, 0, 0, 0), author = (0, 0, 0), type = t,
                 name = (0, 0, 0, 0, 0, 0, 0)\<rparr>"

text \<open>\<open>std::hash<uid>\<close>: \<open>return (size_t)(v[0] ^ v[1]);\<close>\<close>

definition uid_hash :: "endian \<Rightarrow> uid \<Rightarrow> size_t" where
  "uid_hash e u = uid_long e u 0 XOR uid_long e u 1"


section \<open>Lifelines and their handles (snailviewer/liveness.hpp and its pthread implementation)\<close>

subsection \<open>The POSIX read-write lock in the control block\<close>

text \<open>
  The lifeline keeps a \<open>pthread_rwlock_t\<close> in its control block. The lock is the
  library's, not the repository's; the model follows POSIX: any number of read locks or
  one write lock; \<open>pthread_rwlock_wrlock\<close> blocks until no lock is held;
  \<open>pthread_rwlock_tryrdlock\<close> never blocks and fails with \<open>EBUSY\<close> where
  \<open>pthread_rwlock_rdlock\<close> would block: always while the write lock is held, and
  while writers are blocked on the lock if the lock prefers writers. POSIX leaves that
  preference to the implementation, so it is an attribute of the lock.
  \<open>pthread_rwlock_unlock\<close> releases the write lock if it is held and one read lock
  otherwise; unlocking a lock that is not held is undefined (\<open>None\<close>). The number of
  read locks is not bounded (\<open>EAGAIN\<close> is left out).
\<close>

record pthread_rwlock =
  readers :: nat
  writer :: bool
  writers_waiting :: nat
  prefer_writer :: bool

definition EBUSY :: int where
  "EBUSY = 16"

definition pthread_rwlock_init :: "bool \<Rightarrow> int \<Rightarrow> int \<times> pthread_rwlock" where
  "pthread_rwlock_init pw rc =
     (rc, \<lparr>readers = 0, writer = False, writers_waiting = 0, prefer_writer = pw\<rparr>)"

definition pthread_rwlock_tryrdlock :: "pthread_rwlock \<Rightarrow> int \<times> pthread_rwlock" where
  "pthread_rwlock_tryrdlock l =
     (if writer l \<or> (prefer_writer l \<and> 0 < writers_waiting l) then (EBUSY, l)
      else (0, l\<lparr>readers := Suc (readers l)\<rparr>))"

text \<open>\<open>pthread_rwlock_wrlock\<close> in two steps: the caller starts to wait, and the lock is
  granted to a waiting caller once nobody holds it.\<close>

definition pthread_rwlock_wrlock_wait :: "pthread_rwlock \<Rightarrow> pthread_rwlock" where
  "pthread_rwlock_wrlock_wait l = l\<lparr>writers_waiting := Suc (writers_waiting l)\<rparr>"

definition pthread_rwlock_wrlock_grant :: "pthread_rwlock \<Rightarrow> pthread_rwlock option" where
  "pthread_rwlock_wrlock_grant l =
     (if readers l = 0 \<and> \<not> writer l \<and> 0 < writers_waiting l
      then Some (l\<lparr>writer := True, writers_waiting := writers_waiting l - 1\<rparr>) else None)"

definition pthread_rwlock_unlock :: "pthread_rwlock \<Rightarrow> pthread_rwlock option" where
  "pthread_rwlock_unlock l =
     (if writer l then Some (l\<lparr>writer := False\<rparr>)
      else if 0 < readers l then Some (l\<lparr>readers := readers l - 1\<rparr>)
      else None)"

subsection \<open>\<open>class lifeline\<close>\<close>

text \<open>A \<open>void*\<close> is an address; \<open>nullptr\<close> is address 0.\<close>

type_synonym ptr = nat

definition nullptr :: ptr where
  "nullptr = 0"

record lifeline =
  object :: ptr
  controlBlock :: pthread_rwlock

datatype exception = runtime_error

text \<open>\<open>lifeline::lifeline(void* object)\<close>; \<open>rc\<close> is what \<open>pthread_rwlock_init\<close>
  returns and \<open>pw\<close> the preference of a lock with default attributes.\<close>

definition lifeline_ctor :: "bool \<Rightarrow> int \<Rightarrow> ptr \<Rightarrow> exception + lifeline" where
  "lifeline_ctor pw rc obj =
     (case pthread_rwlock_init pw rc of (r, cb) \<Rightarrow>
        if r \<noteq> 0 then Inl runtime_error else Inr \<lparr>object = obj, controlBlock = cb\<rparr>)"

text \<open>The three statements of \<open>lifeline::waitForDeath\<close>, the first in its two steps.\<close>

definition waitForDeath_wait :: "lifeline \<Rightarrow> lifeline" where
  "waitForDeath_wait l = l\<lparr>controlBlock := pthread_rwlock_wrlock_wait (controlBlock l)\<rparr>"

definition waitForDeath_wrlock :: "lifeline \<Rightarrow> lifeline option" where
  "waitForDeath_wrlock l =
     map_option (\<lambda>cb. l\<lparr>controlBlock := cb\<rparr>) (pthread_rwlock_wrlock_grant (controlBlock l))"

definition waitForDeath_clear :: "lifeline \<Rightarrow> lifeline" where
  "waitForDeath_clear l = l\<lparr>object := nullptr\<rparr>"

definition waitForDeath_unlock :: "lifeline \<Rightarrow> lifeline option" where
  "waitForDeath_unlock l =
     map_option (\<lambda>cb. l\<lparr>controlBlock := cb\<rparr>) (pthread_rwlock_unlock (controlBlock l))"

text \<open>\<open>lifeline::waitForDeath\<close> run with no other thread in between; \<open>None\<close> when the
  call does not return.\<close>

definition lifeline_waitForDeath :: "lifeline \<Rightarrow> lifeline option" where
  "lifeline_waitForDeath l =
     (case waitForDeath_wrlock (waitForDeath_wait l) of
        None \<Rightarrow> None
      | Some l1 \<Rightarrow> waitForDeath_unlock (waitForDeath_clear l1))"

text \<open>\<open>lifeline::retain\<close>: \<open>if(pthread_rwlock_tryrdlock(...) != 0) return nullptr;
  else return object;\<close>\<close>

definition lifeline_retain :: "lifeline \<Rightarrow> ptr \<times> lifeline" where
  "lifeline_retain l =
     (case pthread_rwlock_tryrdlock (controlBlock l) of (rc, cb) \<Rightarrow>
        if rc \<noteq> 0 then (nullptr, l) else (object l, l\<lparr>controlBlock := cb\<rparr>))"

text \<open>\<open>lifeline::release\<close>\<close>

definition lifeline_release :: "lifeline \<Rightarrow> lifeline option" where
  "lifeline_release l =
     map_option (\<lambda>cb. l\<lparr>controlBlock := cb\<rparr>) (pthread_rwlock_unlock (controlBlock l))"

subsection \<open>The handles\<close>

text \<open>
  Lifelines live on the heap, one per address; a \<open>std::shared_ptr<lifeline>\<close> is empty
  (\<open>None\<close>) or the address of a lifeline, which it keeps allocated.
\<close>

type_synonym heap = "nat \<Rightarrow> lifeline"
type_synonym shared_ptr = "nat option"

record living_ptr =
  life :: shared_ptr

record liveness_ptr =
  life :: shared_ptr

record holder_ptr =
  life :: shared_ptr
  ptr :: ptr

text \<open>\<open>living_ptr(objectType* thiz): life(new lifeline(thiz))\<close>, the lifeline allocated
  at address \<open>a\<close>.\<close>

definition living_ptr_ctor ::
  "bool \<Rightarrow> int \<Rightarrow> heap \<Rightarrow> nat \<Rightarrow> ptr \<Rightarrow> exception + living_ptr \<times> heap" where
  "living_ptr_ctor pw rc h a thiz =
     (case lifeline_ctor pw rc thiz of
        Inl e \<Rightarrow> Inl e
      | Inr l \<Rightarrow> Inr (\<lparr>living_ptr.life = Some a\<rparr>, h(a := l)))"


text \<open>\<open>~living_ptr() noexcept { if(life) life -> waitForDeath(); }\<close>\<close>

definition living_ptr_dtor :: "heap \<Rightarrow> living_ptr \<Rightarrow> heap option" where
  "living_ptr_dtor h p =
     (case living_ptr.life p of
        None \<Rightarrow> Some h
      | Some a \<Rightarrow> map_option (\<lambda>l. h(a := l)) (lifeline_waitForDeath (h a)))"

text \<open>\<open>living_ptr(living_ptr&& b) noexcept: life() { swap(life, b.life); }\<close>: the new
  pointer and what is left of \<open>b\<close>.\<close>

definition living_ptr_move_ctor :: "living_ptr \<Rightarrow> living_ptr \<times> living_ptr" where
  "living_ptr_move_ctor b =
     (\<lparr>living_ptr.life = living_ptr.life b\<rparr>, b\<lparr>living_ptr.life := None\<rparr>)"

text \<open>\<open>living_ptr& operator=(living_ptr b)\<close> called with an rvalue: the parameter is
  move-constructed from the argument, the lifelines are swapped and the parameter is
  destroyed. The result is the assigned pointer, what is left of the argument and the
  heap.\<close>

definition living_ptr_assign ::
  "heap \<Rightarrow> living_ptr \<Rightarrow> living_ptr \<Rightarrow> (living_ptr \<times> living_ptr \<times> heap) option" where
  "living_ptr_assign h this arg =
     (case living_ptr_move_ctor arg of (b, arg') \<Rightarrow>
        map_option (\<lambda>h'. (this\<lparr>living_ptr.life := living_ptr.life b\<rparr>, arg', h'))
          (living_ptr_dtor h (b\<lparr>living_ptr.life := living_ptr.life this\<rparr>)))"



text \<open>\<open>holder_ptr(const liveness_ptr<objectType>& lp): life(lp.life), ptr(nullptr)
  { if(life) ptr = life -> retain(); }\<close>\<close>

definition holder_ptr_ctor :: "heap \<Rightarrow> liveness_ptr \<Rightarrow> holder_ptr \<times> heap" where
  "holder_ptr_ctor h lp =
     (case liveness_ptr.life lp of
        None \<Rightarrow> (\<lparr>life = None, ptr = nullptr\<rparr>, h)
      | Some a \<Rightarrow>
          (case lifeline_retain (h a) of (p, l) \<Rightarrow> (\<lparr>life = Some a, ptr = p\<rparr>, h(a := l))))"

text \<open>\<open>~holder_ptr() noexcept { if(life) if(ptr) life -> release(); }\<close>\<close>

definition holder_ptr_dtor :: "heap \<Rightarrow> holder_ptr \<Rightarrow> heap option" where
  "holder_ptr_dtor h hp =
     (case life hp of
        None \<Rightarrow> Some h
      | Some a \<Rightarrow>
          if ptr hp \<noteq> nullptr then map_option (\<lambda>l. h(a := l)) (lifeline_release (h a))
          else Some h)"

text \<open>\<open>holder_ptr(holder_ptr&& hp) noexcept { swap(life, hp.life); }\<close>: \<open>life\<close> is
  default-constructed empty and swapped; \<open>ptr\<close> has no initialiser and is not assigned,
  so the new holder's \<open>ptr\<close> is whatever the storage held, the parameter \<open>junk\<close>. The
  result is the new holder and what is left of \<open>hp\<close>.\<close>

definition holder_ptr_move_ctor :: "ptr \<Rightarrow> holder_ptr \<Rightarrow> holder_ptr \<times> holder_ptr" where
  "holder_ptr_move_ctor junk hp = (\<lparr>life = life hp, ptr = junk\<rparr>, hp\<lparr>life := None\<rparr>)"

text \<open>\<open>holder_ptr& operator=(holder_ptr hp) noexcept { swap(life, hp.life); return *this; }\<close>
  called with an rvalue: the parameter is move-constructed from the argument, the
  lifelines are swapped and the parameter is destroyed. The result is the assigned holder,
  what is left of the argument and the heap.\<close>

definition holder_ptr_assign ::
  "ptr \<Rightarrow> heap \<Rightarrow> holder_ptr \<Rightarrow> holder_ptr \<Rightarrow> (holder_ptr \<times> holder_ptr \<times> heap) option" where
  "holder_ptr_assign junk h this arg =
     (case holder_ptr_move_ctor junk arg of (hp, arg') \<Rightarrow>
        map_option (\<lambda>h'. (this\<lparr>life := life hp\<rparr>, arg', h'))
          (holder_ptr_dtor h (hp\<lparr>life := life this\<rparr>)))"

text \<open>\<open>operator objectType*() const noexcept\<close>\<close>

definition holder_ptr_get :: "holder_ptr \<Rightarrow> ptr" where
  "holder_ptr_get hp = ptr hp"

subsection \<open>Threads on lifelines: the interleavings\<close>

text \<open>
  Any number of threads work on the lifelines of one heap. Each step is one lock
  operation or one access to \<open>object\<close> by one thread, so a run is an interleaving of
  the statements of \<open>waitForDeath\<close>, \<open>retain\<close> and \<open>release\<close> as the handles
  call them.
  \<^item> \<open>Enter a\<close>: an owner's destructor calls \<open>waitForDeath\<close> on lifeline \<open>a\<close> and
    starts to wait for the write lock; \<open>Grant a\<close>: the write lock is granted to a
    waiting thread; \<open>Clear a\<close>: that thread executes \<open>object = nullptr\<close>;
    \<open>Leave a\<close>: it unlocks and \<open>waitForDeath\<close> returns.
  \<^item> \<open>Acquire lp\<close>: a thread constructs a holder from the observer \<open>lp\<close>, up to
    and including \<open>pthread_rwlock_tryrdlock\<close>; \<open>Fetch i\<close>: the thread of guard \<open>i\<close>
    executes \<open>return object\<close> and the construction is complete.
  \<^item> \<open>Drop i\<close>: guard \<open>i\<close> leaves its scope and its destructor runs.
  Moving a handle is not a step of this system.
  A step that cannot be taken in a state (the thread is blocked, or there is no such
  guard, or the behaviour would be undefined) is \<open>None\<close>.

  A \<open>world\<close> is the heap, the guards in scope or under construction (\<open>Fetching a\<close>:
  the read lock of lifeline \<open>a\<close> is taken and \<open>object\<close> not yet read), for each
  lifeline where the thread that holds its write lock stands in \<open>waitForDeath\<close>
  (\<open>Outside\<close>: no thread holds it; \<open>Locked\<close>: \<open>pthread_rwlock_wrlock\<close> has returned;
  \<open>Cleared\<close>: \<open>object = nullptr\<close> is done), and whether a \<open>waitForDeath\<close> on it has
  returned.
\<close>

datatype phase = Outside | Locked | Cleared

datatype guard = Fetching nat | Built holder_ptr

record world =
  heap :: heap
  guards :: "guard list"
  tear :: "nat \<Rightarrow> phase"
  dead :: "nat \<Rightarrow> bool"

datatype action =
    Enter nat | Grant nat | Clear nat | Leave nat
  | Acquire liveness_ptr | Fetch nat | Drop nat

definition remove_nth :: "nat \<Rightarrow> 'a list \<Rightarrow> 'a list" where
  "remove_nth i xs = take i xs @ drop (Suc i) xs"

fun step :: "world \<Rightarrow> action \<Rightarrow> world option" where
  "step w (Enter a) = Some (w\<lparr>heap := (heap w)(a := waitForDeath_wait (heap w a))\<rparr>)"
| "step w (Grant a) =
     (case waitForDeath_wrlock (heap w a) of
        None \<Rightarrow> None
      | Some l \<Rightarrow> Some (w\<lparr>heap := (heap w)(a := l), tear := (tear w)(a := Locked)\<rparr>))"
| "step w (Clear a) =
     (if tear w a = Locked
      then Some (w\<lparr>heap := (heap w)(a := waitForDeath_clear (heap w a)),
                   tear := (tear w)(a := Cleared)\<rparr>)
      else None)"
| "step w (Leave a) =
     (if tear w a = Cleared
      then (case waitForDeath_unlock (heap w a) of
              None \<Rightarrow> None
            | Some l \<Rightarrow> Some (w\<lparr>heap := (heap w)(a := l), tear := (tear w)(a := Outside),
                               dead := (dead w)(a := True)\<rparr>))
      else None)"
| "step w (Acquire lp) =
     (case liveness_ptr.life lp of
        None \<Rightarrow> Some (w\<lparr>guards := guards w @ [Built \<lparr>life = None, ptr = nullptr\<rparr>]\<rparr>)
      | Some a \<Rightarrow>
          (case pthread_rwlock_tryrdlock (controlBlock (heap w a)) of (rc, cb) \<Rightarrow>
             if rc \<noteq> 0
             then Some (w\<lparr>guards := guards w @ [Built \<lparr>life = Some a, ptr = nullptr\<rparr>]\<rparr>)
             else Some (w\<lparr>heap := (heap w)(a := (heap w a)\<lparr>controlBlock := cb\<rparr>),
                          guards := guards w @ [Fetching a]\<rparr>)))"
| "step w (Fetch i) =
     (if i < length (guards w)
      then (case guards w ! i of
              Fetching a \<Rightarrow>
                Some (w\<lparr>guards := (guards w)[i := Built \<lparr>life = Some a, ptr = object (heap w a)\<rparr>]\<rparr>)
            | Built hp \<Rightarrow> None)
      else None)"
| "step w (Drop i) =
     (if i < length (guards w)
      then (case guards w ! i of
              Fetching a \<Rightarrow> None
            | Built hp \<Rightarrow>
                (case holder_ptr_dtor (heap w) hp of
                   None \<Rightarrow> None
                 | Some h \<Rightarrow> Some (w\<lparr>heap := h, guards := remove_nth i (guards w)\<rparr>)))
      else None)"

fun run :: "world \<Rightarrow> action list \<Rightarrow> world option" where
  "run w [] = Some w"
| "run w (x # xs) = (case step w x of None \<Rightarrow> None | Some w' \<Rightarrow> run w' xs)"

text \<open>The start: lifeline \<open>a\<close> has just been constructed for the object \<open>objs ! a\<close>
  (addresses beyond the list hold lifelines of no object), no guard exists and no
  teardown has begun.\<close>

definition new_lifeline :: "bool \<Rightarrow> ptr \<Rightarrow> lifeline" where
  "new_lifeline pw obj = \<lparr>object = obj, controlBlock = snd (pthread_rwlock_init pw 0)\<rparr>"

definition boot :: "bool \<Rightarrow> ptr list \<Rightarrow> world" where
  "boot pw objs =
     \<lparr>heap = (\<lambda>a. new_lifeline pw (if a < length objs then objs ! a else nullptr)),
      guards = [], tear = (\<lambda>a. Outside), dead = (\<lambda>a. False)\<rparr>"

text \<open>A guard holds a read lock of lifeline \<open>a\<close> that it will give back.\<close>

fun holds :: "nat \<Rightarrow> guard \<Rightarrow> bool" where
  "holds a (Fetching b) = (b = a)"
| "holds a (Built hp) = (life hp = Some a \<and> ptr hp \<noteq> nullptr)"

text \<open>A guard's pointer is the null pointer or the object of its lifeline.\<close>

fun sound :: "heap \<Rightarrow> guard \<Rightarrow> bool" where
  "sound h (Fetching b) = True"
| "sound h (Built hp) =
     (case life hp of None \<Rightarrow> ptr hp = nullptr
      | Some a \<Rightarrow> ptr hp = nullptr \<or> ptr hp = object (h a))"

definition lock_inv :: "world \<Rightarrow> nat \<Rightarrow> bool" where
  "lock_inv w a =
     ((writer (controlBlock (heap w a)) \<longleftrightarrow> tear w a \<noteq> Outside)
      \<and> (writer (controlBlock (heap w a)) \<longrightarrow> readers (controlBlock (heap w a)) = 0)
      \<and> length (filter (holds a) (guards w)) \<le> readers (controlBlock (heap w a))
      \<and> (tear w a = Cleared \<or> dead w a \<longrightarrow> object (heap w a) = nullptr))"

definition invariant :: "world \<Rightarrow> bool" where
  "invariant w = ((\<forall>a. lock_inv w a) \<and> (\<forall>g \<in> set (guards w). sound (heap w) g))"


section \<open>Events (snailviewer/event.hpp)\<close>

text \<open>
  The header declares the abstract \<open>eventBus\<close> (three pure virtual functions and no
  implementation) and two templates. Neither template can be instantiated as written:
  \<open>eventBus::broadcast<eventType>\<close> initialises the holder's member with
  \<open>std::forward(event)\<close>, whose template argument cannot be deduced, and derives from
  \<open>eventHolder\<close>, whose pure destructor and \<open>get()\<close> are private and undefined;
  \<open>eventHandler<eventType>\<close> passes \<open>this\<close>, a pointer, to \<open>subscribe\<close> and
  \<open>unsubscribe\<close>, which take an \<open>eventHandler<void*>&\<close>. There is no function of this
  header that runs, and none is embedded here.
\<close>


section \<open>Properties of unique identifiers\<close>

lemma le_bytes_nth:
  "i < length bs \<Longrightarrow> i < 8 \<Longrightarrow> ucast (drop_bit (8 * i) (le_bytes bs)) = bs ! i"
proof (induction bs arbitrary: i)
  case Nil
  then show ?case by simp
next
  case (Cons b bs)
  show ?case
  proof (cases i)
    case 0
    then show ?thesis
      by (auto intro!: bit_word_eqI simp: bit_simps)
  next
    case (Suc j)
    with Cons.prems have j: "j < length bs" "j < 8" "j < 7" by simp_all
    have "bit (ucast (drop_bit (8 * Suc j) (le_bytes (b # bs))) :: byte) n
        = bit (ucast (drop_bit (8 * j) (le_bytes bs)) :: byte) n" for n
      using j by (auto simp: bit_simps dest: bit_imp_le_length)
    then have "(ucast (drop_bit (8 * Suc j) (le_bytes (b # bs))) :: byte)
        = ucast (drop_bit (8 * j) (le_bytes bs))"
      by (rule bit_eqI)
    with Cons.IH[OF j(1,2)] Suc show ?thesis by simp
  qed
qed

lemma le_bytes_inj:
  assumes "le_bytes as = le_bytes bs" "length as = length bs" "length as \<le> 8"
  shows "as = bs"
proof (rule nth_equalityI)
  show "length as = length bs" by fact
  fix i assume i: "i < length as"
  then have "as ! i = ucast (drop_bit (8 * i) (le_bytes as))"
    using assms(3) by (simp add: le_bytes_nth)
  also have "\<dots> = bs ! i"
    using i assms by (simp add: le_bytes_nth)
  finally show "as ! i = bs ! i" .
qed

lemma long_of_bytes_inj:
  assumes "long_of_bytes e as = long_of_bytes e bs" "length as = 8" "length bs = 8"
  shows "as = bs"
proof (cases e)
  case LittleEndian
  with assms show ?thesis by (simp add: long_of_bytes_def le_bytes_inj)
next
  case BigEndian
  with assms have "le_bytes (rev as) = le_bytes (rev bs)" by (simp add: long_of_bytes_def)
  then have "rev as = rev bs" using assms(2,3) by (intro le_bytes_inj) simp_all
  then show ?thesis by simp
qed

lemma length_uid_bytes: "length (uid_bytes u) = 16"
  by (simp add: uid_bytes_def split: prod.splits)

lemma uid_bytes_inj: "uid_bytes a = uid_bytes b \<Longrightarrow> a = (b :: uid)"
  by (cases a, cases b) (simp add: uid_bytes_def split: prod.splits)

lemma uid_longs_inj:
  assumes "uid_long e a 0 = uid_long e b 0" "uid_long e a 1 = uid_long e b 1"
  shows "a = (b :: uid)"
proof -
  have "take 8 (uid_bytes a) = take 8 (uid_bytes b)"
    using assms(1) by (intro long_of_bytes_inj[of e]) (simp_all add: uid_long_def length_uid_bytes)
  moreover have "drop 8 (uid_bytes a) = drop 8 (uid_bytes b)"
    using assms(2) by (intro long_of_bytes_inj[of e]) (simp_all add: uid_long_def length_uid_bytes)
  ultimately have "uid_bytes a = uid_bytes b"
    by (metis append_take_drop_id)
  then show ?thesis by (rule uid_bytes_inj)
qed

lemma lex_trichotomy:
  fixes x0 x1 y0 y1 :: long
  defines "lt \<equiv> (if x0 = y0 then x1 <s y1 else x0 <s y0)"
      and "gt \<equiv> (if y0 = x0 then y1 <s x1 else y0 <s x0)"
      and "eq \<equiv> (x0 = y0 \<and> x1 = y1)"
  shows "(lt \<and> \<not> gt \<and> \<not> eq) \<or> (gt \<and> \<not> lt \<and> \<not> eq) \<or> (eq \<and> \<not> lt \<and> \<not> gt)"
proof (cases "x0 = y0")
  case True
  consider "x1 <s y1" | "x1 = y1" | "y1 <s x1"
    using signed.less_linear by blast
  then show ?thesis
  proof cases
    case 1
    then have "\<not> y1 <s x1" "x1 \<noteq> y1" by (simp_all add: signed.less_asym signed.less_imp_neq)
    with 1 True show ?thesis by (simp add: lt_def gt_def eq_def)
  next
    case 2
    with True show ?thesis by (simp add: lt_def gt_def eq_def)
  next
    case 3
    then have "\<not> x1 <s y1" "x1 \<noteq> y1"
      using signed.less_asym signed.less_imp_neq by blast+
    with 3 True show ?thesis by (simp add: lt_def gt_def eq_def)
  qed
next
  case False
  then consider "x0 <s y0" | "y0 <s x0"
    using signed.less_linear by blast
  then show ?thesis
  proof cases
    case 1
    then have "\<not> y0 <s x0" by (simp add: signed.less_asym)
    with 1 False show ?thesis by (auto simp add: lt_def gt_def eq_def)
  next
    case 2
    then have "\<not> x0 <s y0" by (simp add: signed.less_asym)
    with 2 False show ?thesis by (auto simp add: lt_def gt_def eq_def)
  qed
qed

text \<open>
  C6. For all unique identifiers \<open>a\<close> and \<open>b\<close>, if \<open>a == b\<close> (both 8-byte words of the
  16-byte layout are equal) then \<open>hash(a) == hash(b)\<close>, the hash being the bitwise XOR of
  the two words.
\<close>

theorem uid_eq_imp_hash_eq:
  "uid_eq e a b \<Longrightarrow> uid_hash e a = uid_hash e b"
  by (simp add: uid_eq_def uid_hash_def)

theorem uid_eq_imp_hash_eq_witness:
  "uid_eq LittleEndian (uid_null uidType_event) (uid_null uidType_event)
   \<and> uid_hash LittleEndian (uid_null uidType_event) = uid_hash LittleEndian (uid_null uidType_event)
   \<and> uid_hash LittleEndian (uid_null uidType_event) = 1"
proof -
  have eq: "uid_eq LittleEndian (uid_null uidType_event) (uid_null uidType_event)"
    by (simp add: uid_eq_def)
  have "uid_hash LittleEndian (uid_null uidType_event) = 1"
    by (simp add: uid_hash_def uid_long_def uid_bytes_def uid_null_def uidType_event_def
        long_of_bytes_def)
  with eq uid_eq_imp_hash_eq[OF eq] show ?thesis by simp
qed

text \<open>
  C7. \<open>operator<\<close> orders unique identifiers by their raw 128 bits: it compares the
  first 8-byte word and, only when the first words are equal, the second; it is
  irreflexive and transitive, and for all \<open>a\<close> and \<open>b\<close> exactly one of \<open>a < b\<close>,
  \<open>b < a\<close> and \<open>a == b\<close> holds, where \<open>a == b\<close> holds exactly when the sixteen bytes
  agree.
\<close>

theorem uid_less_strict_total_order:
  "(uid_less e a b \<longleftrightarrow>
      uid_long e a 0 <s uid_long e b 0
      \<or> (uid_long e a 0 = uid_long e b 0 \<and> uid_long e a 1 <s uid_long e b 1))
   \<and> ((uid_less e a b \<and> \<not> uid_less e b a \<and> \<not> uid_eq e a b)
      \<or> (uid_less e b a \<and> \<not> uid_less e a b \<and> \<not> uid_eq e a b)
      \<or> (uid_eq e a b \<and> \<not> uid_less e a b \<and> \<not> uid_less e b a))
   \<and> \<not> uid_less e a a
   \<and> (uid_less e a b \<and> uid_less e b c \<longrightarrow> uid_less e a c)
   \<and> (uid_eq e a b \<longleftrightarrow> a = b)"
proof (intro conjI)
  show "uid_less e a b \<longleftrightarrow>
      uid_long e a 0 <s uid_long e b 0
      \<or> (uid_long e a 0 = uid_long e b 0 \<and> uid_long e a 1 <s uid_long e b 1)"
    by (auto simp: uid_less_def)
  show "(uid_less e a b \<and> \<not> uid_less e b a \<and> \<not> uid_eq e a b)
      \<or> (uid_less e b a \<and> \<not> uid_less e a b \<and> \<not> uid_eq e a b)
      \<or> (uid_eq e a b \<and> \<not> uid_less e a b \<and> \<not> uid_less e b a)"
    unfolding uid_less_def uid_eq_def by (rule lex_trichotomy)
  show "\<not> uid_less e a a"
    by (simp add: uid_less_def)
  show "uid_less e a b \<and> uid_less e b c \<longrightarrow> uid_less e a c"
    unfolding uid_less_def
    by (auto split: if_splits dest: signed.less_trans signed.less_asym)
  show "uid_eq e a b \<longleftrightarrow> a = b"
    by (auto simp: uid_eq_def dest: uid_longs_inj)
qed

theorem uid_less_strict_total_order_witness:
  "uid_less LittleEndian (uid_null uidType_module) (uid_null uidType_event)
   \<and> uid_less LittleEndian (uid_null uidType_event) (uid_null uidType_widget)
   \<and> uid_less LittleEndian (uid_null uidType_module) (uid_null uidType_widget)
   \<and> \<not> uid_less LittleEndian (uid_null uidType_event) (uid_null uidType_module)
   \<and> \<not> uid_eq LittleEndian (uid_null uidType_module) (uid_null uidType_event)"
proof -
  have w: "uid_long LittleEndian (uid_null t) 0 = 0"
      "uid_long LittleEndian (uid_null t) (Suc 0) = ucast t" for t
    by (simp_all add: uid_long_def uid_bytes_def uid_null_def long_of_bytes_def)
  have 1: "uid_less LittleEndian (uid_null uidType_module) (uid_null uidType_event)"
    by (simp add: uid_less_def w uidType_module_def uidType_event_def word_sless_alt)
  have 2: "uid_less LittleEndian (uid_null uidType_event) (uid_null uidType_widget)"
    by (simp add: uid_less_def w uidType_event_def uidType_widget_def word_sless_alt)
  from 1 2 uid_less_strict_total_order[of LittleEndian "uid_null uidType_module"
      "uid_null uidType_event" "uid_null uidType_widget"]
  show ?thesis by blast
qed


section \<open>Properties of lifelines and their handles\<close>

subsection \<open>The invariant of the interleavings\<close>

lemma length_filter_remove_nth:
  "i < length xs \<Longrightarrow>
   length (filter P (remove_nth i xs)) = length (filter P xs) - (if P (xs ! i) then 1 else 0)"
proof -
  assume "i < length xs"
  then have "xs = take i xs @ xs ! i # drop (Suc i) xs"
    by (rule id_take_nth_drop)
  then have "filter P xs = filter P (take i xs) @ filter P (xs ! i # drop (Suc i) xs)"
    by (metis filter_append)
  then show ?thesis
    by (simp add: remove_nth_def)
qed

lemma length_filter_update:
  "i < length xs \<Longrightarrow>
   length (filter P (xs[i := y])) + (if P (xs ! i) then 1 else 0)
   = length (filter P xs) + (if P y then 1 else 0)"
proof -
  assume i: "i < length xs"
  then have "xs = take i xs @ xs ! i # drop (Suc i) xs"
    by (rule id_take_nth_drop)
  then have 1: "filter P xs = filter P (take i xs) @ filter P (xs ! i # drop (Suc i) xs)"
    by (metis filter_append)
  from i have "xs[i := y] = take i xs @ y # drop (Suc i) xs"
    by (rule upd_conv_take_nth_drop)
  then have 2: "filter P (xs[i := y]) = filter P (take i xs) @ filter P (y # drop (Suc i) xs)"
    by (metis filter_append)
  show ?thesis
    by (simp add: 1 2)
qed

lemma set_remove_nth: "set (remove_nth i xs) \<subseteq> set xs"
  unfolding remove_nth_def by (auto dest: in_set_takeD in_set_dropD)

lemma no_holder_if_count_0:
  "length (filter P xs) \<le> 0 \<Longrightarrow> x \<in> set xs \<Longrightarrow> \<not> P x"
  by (auto simp: filter_empty_conv)

lemma holder_counted:
  "i < length xs \<Longrightarrow> P (xs ! i) \<Longrightarrow> 0 < length (filter P xs)"
  by (metis filter_empty_conv length_greater_0_conv nth_mem)

lemma lifeline_ctor_cases:
  "lifeline_ctor pw 0 obj = Inr (new_lifeline pw obj)"
  "rc \<noteq> 0 \<Longrightarrow> lifeline_ctor pw rc obj = Inl runtime_error"
  by (simp_all add: lifeline_ctor_def new_lifeline_def pthread_rwlock_init_def)

lemma invariant_boot: "invariant (boot pw objs)"
  by (simp add: invariant_def lock_inv_def boot_def new_lifeline_def pthread_rwlock_init_def)

lemma sound_object_eq:
  "sound h g \<Longrightarrow> (\<And>a. object (h' a) = object (h a)) \<Longrightarrow> sound h' g"
  by (cases g) (auto split: option.splits)

lemma invariant_Enter:
  assumes "invariant w" "step w (Enter a) = Some w'"
  shows "invariant w'"
proof -
  from assms(1) have li: "lock_inv w b" for b by (simp add: invariant_def)
  from assms(2) have w': "w' = w\<lparr>heap := (heap w)(a := waitForDeath_wait (heap w a))\<rparr>"
    by simp
  have "lock_inv w' b" for b
    using li[of b] by (auto simp: w' lock_inv_def waitForDeath_wait_def pthread_rwlock_wrlock_wait_def)
  moreover have "sound (heap w') g" if "g \<in> set (guards w')" for g
  proof (rule sound_object_eq)
    show "sound (heap w) g" using that assms(1) by (simp add: invariant_def w')
    show "object (heap w' b) = object (heap w b)" for b
      by (simp add: w' waitForDeath_wait_def)
  qed
  ultimately show ?thesis by (simp add: invariant_def)
qed


lemma invariant_Grant:
  assumes "invariant w" "step w (Grant a) = Some w'"
  shows "invariant w'"
proof -
  from assms(1) have li: "lock_inv w b" for b by (simp add: invariant_def)
  let ?cb = "controlBlock (heap w a)"
  from assms(2) have free: "readers ?cb = 0" "\<not> writer ?cb" "0 < writers_waiting ?cb"
    and w': "w' = w\<lparr>heap := (heap w)(a := (heap w a)\<lparr>controlBlock :=
                ?cb\<lparr>writer := True, writers_waiting := writers_waiting ?cb - 1\<rparr>\<rparr>),
              tear := (tear w)(a := Locked)\<rparr>"
    by (auto simp: waitForDeath_wrlock_def pthread_rwlock_wrlock_grant_def
        split: option.splits if_splits)
  have "lock_inv w' b" for b
    using li[of b] li[of a] free by (auto simp: w' lock_inv_def)
  moreover have "sound (heap w') g" if "g \<in> set (guards w')" for g
  proof (rule sound_object_eq)
    show "sound (heap w) g" using that assms(1) by (simp add: invariant_def w')
    show "object (heap w' b) = object (heap w b)" for b
      by (simp add: w')
  qed
  ultimately show ?thesis by (simp add: invariant_def)
qed

lemma invariant_Clear:
  assumes "invariant w" "step w (Clear a) = Some w'"
  shows "invariant w'"
proof -
  from assms(1) have li: "lock_inv w b" for b by (simp add: invariant_def)
  from assms(2) have locked: "tear w a = Locked"
    and w': "w' = w\<lparr>heap := (heap w)(a := waitForDeath_clear (heap w a)),
                    tear := (tear w)(a := Cleared)\<rparr>"
    by (auto split: if_splits)
  from li[of a] locked have none: "length (filter (holds a) (guards w)) \<le> 0"
    by (auto simp: lock_inv_def)
  have "lock_inv w' b" for b
    using li[of b] li[of a] locked by (auto simp: w' lock_inv_def waitForDeath_clear_def)
  moreover have "sound (heap w') g" if g: "g \<in> set (guards w')" for g
  proof (cases g)
    case (Fetching b)
    then show ?thesis by simp
  next
    case (Built hp)
    from g have gw: "g \<in> set (guards w)" by (simp add: w')
    with assms(1) have s: "sound (heap w) g" by (simp add: invariant_def)
    from none gw have "\<not> holds a g" by (rule no_holder_if_count_0)
    with s Built show ?thesis
      by (auto simp: w' waitForDeath_clear_def split: option.splits)
  qed
  ultimately show ?thesis by (simp add: invariant_def)
qed

lemma invariant_Leave:
  assumes "invariant w" "step w (Leave a) = Some w'"
  shows "invariant w'"
proof -
  from assms(1) have li: "lock_inv w b" for b by (simp add: invariant_def)
  let ?cb = "controlBlock (heap w a)"
  from assms(2) have cleared: "tear w a = Cleared"
    by (auto split: if_splits)
  with li[of a] have wr: "writer ?cb" "readers ?cb = 0" "object (heap w a) = nullptr"
    by (auto simp: lock_inv_def)
  with assms(2) cleared have
    w': "w' = w\<lparr>heap := (heap w)(a := (heap w a)\<lparr>controlBlock := ?cb\<lparr>writer := False\<rparr>\<rparr>),
              tear := (tear w)(a := Outside), dead := (dead w)(a := True)\<rparr>"
    by (auto simp: waitForDeath_unlock_def pthread_rwlock_unlock_def split: option.splits)
  have "lock_inv w' b" for b
    using li[of b] li[of a] wr cleared by (auto simp: w' lock_inv_def)
  moreover have "sound (heap w') g" if "g \<in> set (guards w')" for g
  proof (rule sound_object_eq)
    show "sound (heap w) g" using that assms(1) by (simp add: invariant_def w')
    show "object (heap w' b) = object (heap w b)" for b
      by (simp add: w')
  qed
  ultimately show ?thesis by (simp add: invariant_def)
qed

lemma invariant_Acquire:
  assumes "invariant w" "step w (Acquire lp) = Some w'"
  shows "invariant w'"
proof -
  from assms(1) have li: "lock_inv w b" for b by (simp add: invariant_def)
  show ?thesis
  proof (cases "liveness_ptr.life lp")
  case None
  with assms(2) have w': "w' = w\<lparr>guards := guards w @ [Built \<lparr>life = None, ptr = nullptr\<rparr>]\<rparr>"
    by simp
  show ?thesis
    using assms(1) by (auto simp: invariant_def lock_inv_def w')
next
  case (Some a)
  let ?cb = "controlBlock (heap w a)"
  show ?thesis
  proof (cases "writer ?cb \<or> (prefer_writer ?cb \<and> 0 < writers_waiting ?cb)")
    case True
    with assms(2) Some
    have w': "w' = w\<lparr>guards := guards w @ [Built \<lparr>life = Some a, ptr = nullptr\<rparr>]\<rparr>"
      by (auto simp: pthread_rwlock_tryrdlock_def EBUSY_def)
    have "lock_inv w' b" for b
      using li[of b] by (auto simp: lock_inv_def w')
    moreover have "sound (heap w') g" if "g \<in> set (guards w')" for g
      using that assms(1) by (auto simp: invariant_def w')
    ultimately show ?thesis by (simp add: invariant_def)
  next
    case False
    with assms(2) Some
    have w': "w' = w\<lparr>heap := (heap w)(a := (heap w a)\<lparr>controlBlock :=
                ?cb\<lparr>readers := Suc (readers ?cb)\<rparr>\<rparr>),
              guards := guards w @ [Fetching a]\<rparr>"
      by (auto simp: pthread_rwlock_tryrdlock_def)
    have "lock_inv w' b" for b
      using li[of b] li[of a] False by (auto simp: w' lock_inv_def)
    moreover have "sound (heap w') g" if g: "g \<in> set (guards w')" for g
    proof (cases "g = Fetching a")
      case True
      then show ?thesis by simp
    next
      case False
      with g have "g \<in> set (guards w)" by (simp add: w')
      with assms(1) have "sound (heap w) g" by (simp add: invariant_def)
      then show ?thesis
        by (rule sound_object_eq) (simp add: w')
    qed
    ultimately show ?thesis by (simp add: invariant_def)
  qed
qed
qed


lemma invariant_Fetch:
  assumes "invariant w" "step w (Fetch i) = Some w'"
  shows "invariant w'"
proof -
  from assms(1) have li: "lock_inv w b" for b by (simp add: invariant_def)
  from assms(2) obtain a where i: "i < length (guards w)" and gi: "guards w ! i = Fetching a"
    and w': "w' = w\<lparr>guards := (guards w)[i := Built \<lparr>life = Some a, ptr = object (heap w a)\<rparr>]\<rparr>"
    by (auto split: if_splits guard.splits)
  let ?g = "Built \<lparr>life = Some a, ptr = object (heap w a)\<rparr>"
  have "lock_inv w' b" for b
  proof -
    have "length (filter (holds b) ((guards w)[i := ?g])) \<le> length (filter (holds b) (guards w))"
      using length_filter_update[OF i, of "holds b" ?g] gi
      by (auto split: if_splits)
    with li[of b] show ?thesis by (auto simp: w' lock_inv_def)
  qed
  moreover have "sound (heap w') g" if g: "g \<in> set (guards w')" for g
  proof -
    from g have "g = ?g \<or> g \<in> set (guards w)"
      using set_update_subset_insert[of "guards w" i ?g] by (auto simp: w')
    then show ?thesis
      using assms(1) by (auto simp: invariant_def w')
  qed
  ultimately show ?thesis by (simp add: invariant_def)
qed

lemma lock_inv_holder:
  assumes "lock_inv w a" "i < length (guards w)" "holds a (guards w ! i)"
  shows "0 < readers (controlBlock (heap w a))" "\<not> writer (controlBlock (heap w a))"
    "tear w a = Outside"
proof -
  from assms(2,3) have "0 < length (filter (holds a) (guards w))" by (rule holder_counted)
  moreover from assms(1) have "length (filter (holds a) (guards w)) \<le> readers (controlBlock (heap w a))"
    unfolding lock_inv_def by blast
  ultimately show r: "0 < readers (controlBlock (heap w a))" by linarith
  from assms(1) have "writer (controlBlock (heap w a)) \<longrightarrow> readers (controlBlock (heap w a)) = 0"
    unfolding lock_inv_def by blast
  with r show nw: "\<not> writer (controlBlock (heap w a))" by auto
  from assms(1) have "writer (controlBlock (heap w a)) \<longleftrightarrow> tear w a \<noteq> Outside"
    unfolding lock_inv_def by blast
  with nw show "tear w a = Outside" by simp
qed

lemma Drop_enabled:
  assumes "invariant w" "i < length (guards w)" "guards w ! i = Built hp"
  shows "\<exists>h. holder_ptr_dtor (heap w) hp = Some h"
proof (cases "holds (the (life hp)) (Built hp) \<and> life hp \<noteq> None")
  case True
  then obtain a where a: "life hp = Some a" "ptr hp \<noteq> nullptr" by auto
  then have "holds a (guards w ! i)" by (simp add: assms(3))
  moreover from assms(1) have "lock_inv w a" by (simp add: invariant_def)
  ultimately have "0 < readers (controlBlock (heap w a))"
    using assms(2) by (intro lock_inv_holder(1)[of w a i])
  with a show ?thesis
    by (simp add: holder_ptr_dtor_def lifeline_release_def pthread_rwlock_unlock_def)
next
  case False
  then show ?thesis
    by (auto simp: holder_ptr_dtor_def split: option.splits)
qed

lemma invariant_Drop:
  assumes "invariant w" "step w (Drop i) = Some w'"
  shows "invariant w'"
proof -
  from assms(1) have li: "lock_inv w b" for b by (simp add: invariant_def)
  from assms(2) obtain hp h where i: "i < length (guards w)" and gi: "guards w ! i = Built hp"
    and h: "holder_ptr_dtor (heap w) hp = Some h"
    and w': "w' = w\<lparr>heap := h, guards := remove_nth i (guards w)\<rparr>"
    by (auto split: if_splits guard.splits option.splits)
  have cnt: "length (filter (holds b) (remove_nth i (guards w)))
      = length (filter (holds b) (guards w)) - (if holds b (Built hp) then 1 else 0)" for b
    using length_filter_remove_nth[OF i, of "holds b"] gi by simp
  have obj: "object (h b) = object (heap w b)" for b
    using h by (auto simp: holder_ptr_dtor_def lifeline_release_def
        split: option.splits if_splits)
  have "lock_inv w' b" for b
  proof (cases "holds b (Built hp)")
    case True
    then have b: "life hp = Some b" "ptr hp \<noteq> nullptr" by simp_all
    from True i gi have pos: "0 < length (filter (holds b) (guards w))"
      by (intro holder_counted[of i]) simp_all
    from True gi have "holds b (guards w ! i)" by simp
    with li[of b] i have rd: "0 < readers (controlBlock (heap w b))" "\<not> writer (controlBlock (heap w b))"
      by (auto dest: lock_inv_holder)
    with h b have "h = (heap w)(b := (heap w b)\<lparr>controlBlock :=
        (controlBlock (heap w b))\<lparr>readers := readers (controlBlock (heap w b)) - 1\<rparr>\<rparr>)"
      by (auto simp: holder_ptr_dtor_def lifeline_release_def pthread_rwlock_unlock_def)
    with li[of b] rd pos True show ?thesis
      by (auto simp: w' lock_inv_def cnt)
  next
    case False
    have "controlBlock (h b) = controlBlock (heap w b)"
    proof (cases "life hp = Some b")
      case True
      with False have "ptr hp = nullptr" by simp
      with h True show ?thesis by (simp add: holder_ptr_dtor_def)
    next
      case False
      with h show ?thesis
        by (auto simp: holder_ptr_dtor_def lifeline_release_def split: option.splits if_splits)
    qed
    with li[of b] False obj[of b] show ?thesis
      by (auto simp: w' lock_inv_def cnt)
  qed
  moreover have "sound (heap w') g" if g: "g \<in> set (guards w')" for g
  proof (rule sound_object_eq)
    from g have "g \<in> set (guards w)" using set_remove_nth[of i "guards w"] by (auto simp: w')
    with assms(1) show "sound (heap w) g" by (simp add: invariant_def)
    show "object (heap w' b) = object (heap w b)" for b
      by (simp add: w' obj)
  qed
  ultimately show ?thesis by (simp add: invariant_def)
qed

lemma invariant_step: "invariant w \<Longrightarrow> step w x = Some w' \<Longrightarrow> invariant w'"
  by (cases x) (blast intro: invariant_Enter invariant_Grant invariant_Clear invariant_Leave
      invariant_Acquire invariant_Fetch invariant_Drop)+

lemma invariant_run: "invariant w \<Longrightarrow> run w xs = Some w' \<Longrightarrow> invariant w'"
proof (induction xs arbitrary: w)
  case Nil
  then show ?case by simp
next
  case (Cons x xs)
  then show ?case
    by (auto split: option.splits dest: invariant_step)
qed

lemma run_append:
  "run w (xs @ ys) = (case run w xs of None \<Rightarrow> None | Some w' \<Rightarrow> run w' ys)"
  by (induction xs arbitrary: w) (auto split: option.splits)

lemma dead_step: "step w x = Some w' \<Longrightarrow> dead w a \<Longrightarrow> dead w' a"
  by (cases x) (auto split: option.splits if_splits guard.splits prod.splits)

lemma dead_run: "run w xs = Some w' \<Longrightarrow> dead w a \<Longrightarrow> dead w' a"
  by (induction xs arbitrary: w) (auto split: option.splits dest: dead_step)

lemma object_step:
  "step w x = Some w' \<Longrightarrow> object (heap w' a) = object (heap w a) \<or> object (heap w' a) = nullptr"
  by (cases x)
    (auto simp: waitForDeath_wait_def waitForDeath_wrlock_def waitForDeath_clear_def
      waitForDeath_unlock_def holder_ptr_dtor_def lifeline_release_def
      split: option.splits if_splits guard.splits prod.splits)

lemma object_run:
  "run w xs = Some w' \<Longrightarrow> object (heap w' a) = object (heap w a) \<or> object (heap w' a) = nullptr"
proof (induction xs arbitrary: w)
  case Nil
  then show ?case by simp
next
  case (Cons x xs)
  then obtain w1 where 1: "step w x = Some w1" and 2: "run w1 xs = Some w'"
    by (auto split: option.splits)
  from object_step[OF 1, of a] Cons.IH[OF 2] show ?case by auto
qed

text \<open>The two steps of a construction, taken one after the other, are the constructor.\<close>

lemma holder_ptr_ctor_steps:
  assumes "holder_ptr_ctor (heap w) lp = (hp, h)"
  shows "run w [Acquire lp] = Some (w\<lparr>heap := h, guards := guards w @ [Built hp]\<rparr>)
    \<or> run w [Acquire lp, Fetch (length (guards w))]
        = Some (w\<lparr>heap := h, guards := guards w @ [Built hp]\<rparr>)"
  using assms
  by (auto simp: holder_ptr_ctor_def lifeline_retain_def split: option.splits prod.splits if_splits)

lemma waitForDeath_steps:
  assumes "lifeline_waitForDeath (heap w a) = Some l"
  shows "run w [Enter a, Grant a, Clear a, Leave a]
    = Some (w\<lparr>heap := (heap w)(a := l), tear := (tear w)(a := Outside),
              dead := (dead w)(a := True)\<rparr>)"
  using assms
  by (auto simp: lifeline_waitForDeath_def waitForDeath_wait_def waitForDeath_wrlock_def
      waitForDeath_clear_def waitForDeath_unlock_def split: option.splits)


lemma invariant_reachable: "run (boot pw objs) acts = Some w \<Longrightarrow> invariant w"
  using invariant_boot by (rule invariant_run)

lemma invariant_sound: "invariant w \<Longrightarrow> g \<in> set (guards w) \<Longrightarrow> sound (heap w) g"
  by (simp add: invariant_def)

text \<open>
  C1. Once \<open>waitForDeath\<close> has returned on a lifeline, then in every later state of
  every interleaving the stored reference is null, every guard on that lifeline converts
  to the null pointer, and so does a holder constructed then: no later \<open>retain\<close>,
  \<open>release\<close> or further teardown makes the reference non-null again.
\<close>

theorem dead_is_terminal:
  assumes "run (boot pw objs) acts = Some w" and "dead w a"
    and "run w acts' = Some w'" and "liveness_ptr.life lp = Some a"
  shows "dead w' a
    \<and> object (heap w' a) = nullptr
    \<and> holder_ptr_get (fst (holder_ptr_ctor (heap w') lp)) = nullptr
    \<and> (\<forall>i hp. i < length (guards w') \<and> guards w' ! i = Built hp \<and> life hp = Some a
          \<longrightarrow> holder_ptr_get hp = nullptr)"
proof -
  from assms(1,3) have "run (boot pw objs) (acts @ acts') = Some w'"
    by (simp add: run_append)
  then have inv: "invariant w'" by (rule invariant_reachable)
  from assms(3,2) have d: "dead w' a" by (rule dead_run)
  from inv have "lock_inv w' a" by (simp add: invariant_def)
  with d have obj: "object (heap w' a) = nullptr" by (simp add: lock_inv_def)
  have "holder_ptr_get (fst (holder_ptr_ctor (heap w') lp)) = nullptr"
    using obj assms(4)
    by (simp add: holder_ptr_get_def holder_ptr_ctor_def lifeline_retain_def
        split: prod.splits)
  moreover have "holder_ptr_get hp = nullptr"
    if "i < length (guards w')" "guards w' ! i = Built hp" "life hp = Some a" for i hp
  proof -
    from that(1,2) have "Built hp \<in> set (guards w')" by (metis nth_mem)
    with inv have "sound (heap w') (Built hp)" by (rule invariant_sound)
    with that(3) obj show ?thesis by (auto simp: holder_ptr_get_def)
  qed
  ultimately show ?thesis using d obj by blast
qed

text \<open>A guard, once built, stays as it is until its own destructor runs (destroying
  a guard before it in the list moves it one place down).\<close>

lemma guard_persists:
  assumes "step w x = Some w'" "i < length (guards w)" "guards w ! i = Built hp"
    and "\<And>j. x = Drop j \<Longrightarrow> i < j"
  shows "i < length (guards w') \<and> guards w' ! i = Built hp"
proof (cases x)
  case (Acquire lp)
  with assms(1,2,3) show ?thesis
    by (auto simp: nth_append split: option.splits prod.splits if_splits)
next
  case (Fetch j)
  with assms(1,2,3) show ?thesis
    by (cases "j = i") (auto split: if_splits guard.splits)
next
  case (Drop j)
  with assms(4) have "i < j" by simp
  with Drop assms(1,2,3) show ?thesis
    by (auto simp: remove_nth_def nth_append min_def split: if_splits guard.splits option.splits)
qed (use assms(1,2,3) in \<open>auto split: option.splits if_splits\<close>)

text \<open>
  As long as no handle is moved: in every state of every interleaving of constructions,
  destructions and teardowns, a guard whose pointer conversion is not null holds the
  pointer its lifeline was constructed with, the lifeline still stores that pointer, and
  no \<open>waitForDeath\<close> on the lifeline has returned or holds the write lock: the write lock
  cannot be granted and \<open>object = nullptr\<close> cannot be executed while the guard is in
  scope, and the guard's destructor can always give its read lock back.
\<close>

lemma unmoved_guard_never_dangles:
  assumes "run (boot pw objs) acts = Some w"
    and "i < length (guards w)" and "guards w ! i = Built hp"
    and "life hp = Some a" and "holder_ptr_get hp \<noteq> nullptr"
  shows "holder_ptr_get hp = object (heap (boot pw objs) a)
    \<and> object (heap w a) = holder_ptr_get hp
    \<and> \<not> dead w a \<and> tear w a = Outside
    \<and> step w (Grant a) = None \<and> step w (Clear a) = None \<and> step w (Leave a) = None
    \<and> step w (Drop i) \<noteq> None"
proof -
  from assms(1) have inv: "invariant w" by (rule invariant_reachable)
  then have li: "lock_inv w a" by (simp add: invariant_def)
  from assms(2,3) have "Built hp \<in> set (guards w)" by (metis nth_mem)
  with inv have "sound (heap w) (Built hp)" by (rule invariant_sound)
  with assms(4,5) have obj: "object (heap w a) = holder_ptr_get hp"
    by (auto simp: holder_ptr_get_def)
  with assms(5) have nn: "object (heap w a) \<noteq> nullptr" by simp
  with object_run[OF assms(1), of a] obj
  have orig: "holder_ptr_get hp = object (heap (boot pw objs) a)" by simp
  from li nn have nd: "\<not> dead w a" by (auto simp: lock_inv_def)
  from assms(3,4,5) have "holds a (guards w ! i)" by (simp add: holder_ptr_get_def)
  from lock_inv_holder[OF li assms(2) this]
  have lk: "0 < readers (controlBlock (heap w a))" "\<not> writer (controlBlock (heap w a))"
    "tear w a = Outside" .
  from lk(1) have g: "step w (Grant a) = None"
    by (simp add: waitForDeath_wrlock_def pthread_rwlock_wrlock_grant_def)
  from lk(3) have c: "step w (Clear a) = None" "step w (Leave a) = None" by simp_all
  from Drop_enabled[OF inv assms(2,3)] assms(2,3) have "step w (Drop i) \<noteq> None"
    by auto
  with obj orig nd lk(3) g c show ?thesis by blast
qed

lemmas sys_eval = boot_def new_lifeline_def pthread_rwlock_init_def pthread_rwlock_tryrdlock_def
  pthread_rwlock_wrlock_wait_def pthread_rwlock_wrlock_grant_def pthread_rwlock_unlock_def
  waitForDeath_wait_def waitForDeath_wrlock_def waitForDeath_clear_def waitForDeath_unlock_def
  lifeline_waitForDeath_def lifeline_retain_def lifeline_release_def
  holder_ptr_ctor_def holder_ptr_dtor_def holder_ptr_get_def living_ptr_dtor_def
  nullptr_def remove_nth_def EBUSY_def fun_upd_idem_iff numeral_2_eq_2

lemma unmoved_guard_never_dangles_example:
  "run (boot False [42]) [Acquire \<lparr>liveness_ptr.life = Some 0\<rparr>, Fetch 0, Enter 0]
     = Some ((boot False [42])\<lparr>heap := (heap (boot False [42]))(0 :=
          \<lparr>object = 42, controlBlock =
             \<lparr>readers = 1, writer = False, writers_waiting = 1, prefer_writer = False\<rparr>\<rparr>),
        guards := [Built \<lparr>life = Some 0, ptr = 42\<rparr>]\<rparr>)
   \<and> holder_ptr_get \<lparr>life = Some 0, ptr = 42\<rparr> = object (heap (boot False [42]) 0)
   \<and> step ((boot False [42])\<lparr>heap := (heap (boot False [42]))(0 :=
          \<lparr>object = 42, controlBlock =
             \<lparr>readers = 1, writer = False, writers_waiting = 1, prefer_writer = False\<rparr>\<rparr>),
        guards := [Built \<lparr>life = Some 0, ptr = 42\<rparr>]\<rparr>) (Grant 0) = None"
proof -
  let ?w = "(boot False [42])\<lparr>heap := (heap (boot False [42]))(0 :=
          \<lparr>object = 42, controlBlock =
             \<lparr>readers = 1, writer = False, writers_waiting = 1, prefer_writer = False\<rparr>\<rparr>),
        guards := [Built \<lparr>life = Some 0, ptr = 42\<rparr>]\<rparr>"
  have r: "run (boot False [42]) [Acquire \<lparr>liveness_ptr.life = Some 0\<rparr>, Fetch 0, Enter 0]
     = Some ?w"
    by (simp add: sys_eval)
  have "guards ?w ! 0 = Built \<lparr>life = Some 0, ptr = 42\<rparr>" "0 < length (guards ?w)"
    "life \<lparr>life = Some 0, ptr = 42\<rparr> = Some 0"
    "holder_ptr_get \<lparr>life = Some 0, ptr = 42\<rparr> \<noteq> nullptr"
    by (simp_all add: holder_ptr_get_def nullptr_def)
  from unmoved_guard_never_dangles[OF r this(2) this(1) this(3) this(4)] r
  show ?thesis by blast
qed


theorem dead_is_terminal_witness:
  "run (boot False [42]) [Acquire \<lparr>liveness_ptr.life = Some 0\<rparr>, Fetch 0, Enter 0, Drop 0,
       Grant 0, Clear 0, Leave 0]
     = Some ((boot False [42])\<lparr>heap := (heap (boot False [42]))(0 :=
          \<lparr>object = nullptr, controlBlock =
             \<lparr>readers = 0, writer = False, writers_waiting = 0, prefer_writer = False\<rparr>\<rparr>),
        dead := (dead (boot False [42]))(0 := True)\<rparr>)
   \<and> run ((boot False [42])\<lparr>heap := (heap (boot False [42]))(0 :=
          \<lparr>object = nullptr, controlBlock =
             \<lparr>readers = 0, writer = False, writers_waiting = 0, prefer_writer = False\<rparr>\<rparr>),
        dead := (dead (boot False [42]))(0 := True)\<rparr>)
       [Acquire \<lparr>liveness_ptr.life = Some 0\<rparr>, Fetch 0, Enter 0]
     = Some ((boot False [42])\<lparr>heap := (heap (boot False [42]))(0 :=
          \<lparr>object = nullptr, controlBlock =
             \<lparr>readers = 1, writer = False, writers_waiting = 1, prefer_writer = False\<rparr>\<rparr>),
        guards := [Built \<lparr>life = Some 0, ptr = nullptr\<rparr>],
        dead := (dead (boot False [42]))(0 := True)\<rparr>)
   \<and> holder_ptr_get (fst (holder_ptr_ctor ((heap (boot False [42]))(0 :=
          \<lparr>object = nullptr, controlBlock =
             \<lparr>readers = 1, writer = False, writers_waiting = 1, prefer_writer = False\<rparr>\<rparr>))
        \<lparr>liveness_ptr.life = Some 0\<rparr>)) = nullptr"
proof -
  let ?w = "(boot False [42])\<lparr>heap := (heap (boot False [42]))(0 :=
          \<lparr>object = nullptr, controlBlock =
             \<lparr>readers = 0, writer = False, writers_waiting = 0, prefer_writer = False\<rparr>\<rparr>),
        dead := (dead (boot False [42]))(0 := True)\<rparr>"
  let ?w' = "(boot False [42])\<lparr>heap := (heap (boot False [42]))(0 :=
          \<lparr>object = nullptr, controlBlock =
             \<lparr>readers = 1, writer = False, writers_waiting = 1, prefer_writer = False\<rparr>\<rparr>),
        guards := [Built \<lparr>life = Some 0, ptr = nullptr\<rparr>],
        dead := (dead (boot False [42]))(0 := True)\<rparr>"
  have r: "run (boot False [42]) [Acquire \<lparr>liveness_ptr.life = Some 0\<rparr>, Fetch 0, Enter 0,
       Drop 0, Grant 0, Clear 0, Leave 0] = Some ?w"
    by (simp add: sys_eval)
  have d: "dead ?w 0" by simp
  have r': "run ?w [Acquire \<lparr>liveness_ptr.life = Some 0\<rparr>, Fetch 0, Enter 0] = Some ?w'"
    by (simp add: sys_eval)
  have l: "liveness_ptr.life \<lparr>liveness_ptr.life = Some 0\<rparr> = Some 0" by simp
  from dead_is_terminal[OF r d r' l] have
    "holder_ptr_get (fst (holder_ptr_ctor (heap ?w') \<lparr>liveness_ptr.life = Some 0\<rparr>)) = nullptr"
    by blast
  with r r' show ?thesis by simp
qed

text \<open>
  C3, as stated, fails where the teardown is only pending. On a lock that does not prefer
  writers, a guard holds the shared side, the owner's destructor waits in
  \<open>pthread_rwlock_wrlock\<close>, and a second holder is constructed: its acquisition
  succeeds and its pointer conversion is 42, not null.
\<close>

theorem retain_succeeds_while_teardown_waits:
  "run (boot False [42]) [Acquire \<lparr>liveness_ptr.life = Some 0\<rparr>, Fetch 0, Enter 0,
       Acquire \<lparr>liveness_ptr.life = Some 0\<rparr>, Fetch 1]
     = Some ((boot False [42])\<lparr>heap := (heap (boot False [42]))(0 :=
          \<lparr>object = 42, controlBlock =
             \<lparr>readers = 2, writer = False, writers_waiting = 1, prefer_writer = False\<rparr>\<rparr>),
        guards := [Built \<lparr>life = Some 0, ptr = 42\<rparr>, Built \<lparr>life = Some 0, ptr = 42\<rparr>]\<rparr>)
   \<and> holder_ptr_ctor ((heap (boot False [42]))(0 :=
          \<lparr>object = 42, controlBlock =
             \<lparr>readers = 1, writer = False, writers_waiting = 1, prefer_writer = False\<rparr>\<rparr>))
        \<lparr>liveness_ptr.life = Some 0\<rparr>
     = (\<lparr>life = Some 0, ptr = 42\<rparr>, (heap (boot False [42]))(0 :=
          \<lparr>object = 42, controlBlock =
             \<lparr>readers = 2, writer = False, writers_waiting = 1, prefer_writer = False\<rparr>\<rparr>))
   \<and> holder_ptr_get \<lparr>life = Some 0, ptr = 42\<rparr> \<noteq> nullptr"
  by (simp add: sys_eval)

text \<open>
  C3, amended. Constructing a holder never blocks: both of its steps can always be taken.
  Whenever the write lock is held, and on a lock that prefers writers whenever a teardown
  waits for it, the construction fails at once: the heap is unchanged and the holder's
  pointer conversion is null; the constructor returns a holder and raises nothing. In
  every other case (a teardown waiting on a lock that does not prefer writers included)
  it takes a read lock and the holder points to what the lifeline stores.
\<close>

theorem retain_never_blocks:
  assumes "liveness_ptr.life lp = Some a"
  shows "step w (Acquire lp) \<noteq> None
    \<and> (i < length (guards w) \<and> guards w ! i = Fetching b \<longrightarrow> step w (Fetch i) \<noteq> None)
    \<and> (writer (controlBlock (h a)) \<or> (prefer_writer (controlBlock (h a)) \<and> 0 < writers_waiting (controlBlock (h a)))
        \<longrightarrow> holder_ptr_ctor h lp = (\<lparr>life = Some a, ptr = nullptr\<rparr>, h)
          \<and> holder_ptr_get (fst (holder_ptr_ctor h lp)) = nullptr)
    \<and> (\<not> writer (controlBlock (h a)) \<and> \<not> (prefer_writer (controlBlock (h a)) \<and> 0 < writers_waiting (controlBlock (h a)))
        \<longrightarrow> holder_ptr_ctor h lp =
            (\<lparr>life = Some a, ptr = object (h a)\<rparr>,
             h(a := (h a)\<lparr>controlBlock :=
                (controlBlock (h a))\<lparr>readers := Suc (readers (controlBlock (h a)))\<rparr>\<rparr>)))"
proof (intro conjI impI)
  show "step w (Acquire lp) \<noteq> None"
    by (simp split: option.splits prod.splits)
  show "step w (Fetch i) \<noteq> None" if "i < length (guards w) \<and> guards w ! i = Fetching b"
    using that by simp
  assume "writer (controlBlock (h a)) \<or> (prefer_writer (controlBlock (h a)) \<and> 0 < writers_waiting (controlBlock (h a)))"
  then show c: "holder_ptr_ctor h lp = (\<lparr>life = Some a, ptr = nullptr\<rparr>, h)"
    using assms
    by (auto simp: holder_ptr_ctor_def lifeline_retain_def pthread_rwlock_tryrdlock_def EBUSY_def)
  then show "holder_ptr_get (fst (holder_ptr_ctor h lp)) = nullptr"
    by (simp add: holder_ptr_get_def)
next
  assume "\<not> writer (controlBlock (h a)) \<and> \<not> (prefer_writer (controlBlock (h a)) \<and> 0 < writers_waiting (controlBlock (h a)))"
  then show "holder_ptr_ctor h lp =
            (\<lparr>life = Some a, ptr = object (h a)\<rparr>,
             h(a := (h a)\<lparr>controlBlock :=
                (controlBlock (h a))\<lparr>readers := Suc (readers (controlBlock (h a)))\<rparr>\<rparr>))"
    using assms
    by (auto simp: holder_ptr_ctor_def lifeline_retain_def pthread_rwlock_tryrdlock_def)
qed


theorem retain_never_blocks_witness:
  "step ((boot True [42])\<lparr>guards := [Fetching 0]\<rparr>) (Acquire \<lparr>liveness_ptr.life = Some 0\<rparr>) \<noteq> None
   \<and> step ((boot True [42])\<lparr>guards := [Fetching 0]\<rparr>) (Fetch 0) \<noteq> None
   \<and> holder_ptr_ctor ((heap (boot True [42]))(0 := \<lparr>object = 42, controlBlock =
          \<lparr>readers = 0, writer = True, writers_waiting = 0, prefer_writer = True\<rparr>\<rparr>))
        \<lparr>liveness_ptr.life = Some 0\<rparr>
      = (\<lparr>life = Some 0, ptr = nullptr\<rparr>,
         (heap (boot True [42]))(0 := \<lparr>object = 42, controlBlock =
          \<lparr>readers = 0, writer = True, writers_waiting = 0, prefer_writer = True\<rparr>\<rparr>))
   \<and> holder_ptr_ctor (heap (boot True [42])) \<lparr>liveness_ptr.life = Some 0\<rparr>
      = (\<lparr>life = Some 0, ptr = 42\<rparr>,
         (heap (boot True [42]))(0 := \<lparr>object = 42, controlBlock =
          \<lparr>readers = 1, writer = False, writers_waiting = 0, prefer_writer = True\<rparr>\<rparr>))"
proof -
  let ?lp = "\<lparr>liveness_ptr.life = Some 0\<rparr>"
  let ?w = "(boot True [42])\<lparr>guards := [Fetching 0]\<rparr>"
  let ?h = "(heap (boot True [42]))(0 := \<lparr>object = 42, controlBlock =
          \<lparr>readers = 0, writer = True, writers_waiting = 0, prefer_writer = True\<rparr>\<rparr>)"
  have l: "liveness_ptr.life ?lp = Some 0" by simp
  have 1: "0 < length (guards ?w) \<and> guards ?w ! 0 = Fetching 0" by simp
  have 2: "writer (controlBlock (?h 0))
      \<or> (prefer_writer (controlBlock (?h 0)) \<and> 0 < writers_waiting (controlBlock (?h 0)))" by simp
  have 3: "\<not> writer (controlBlock (heap (boot True [42]) 0))
      \<and> \<not> (prefer_writer (controlBlock (heap (boot True [42]) 0))
          \<and> 0 < writers_waiting (controlBlock (heap (boot True [42]) 0)))"
    by (simp add: sys_eval)
  have 4: "object (heap (boot True [42]) 0) = 42"
    "(heap (boot True [42]) 0)\<lparr>controlBlock := (controlBlock (heap (boot True [42]) 0))
        \<lparr>readers := Suc (readers (controlBlock (heap (boot True [42]) 0)))\<rparr>\<rparr>
     = \<lparr>object = 42, controlBlock =
          \<lparr>readers = 1, writer = False, writers_waiting = 0, prefer_writer = True\<rparr>\<rparr>"
    by (simp_all add: sys_eval)
  from retain_never_blocks[OF l, of ?w 0 0 ?h] 1 2
  have a: "step ?w (Acquire ?lp) \<noteq> None" "step ?w (Fetch 0) \<noteq> None"
    "holder_ptr_ctor ?h ?lp = (\<lparr>life = Some 0, ptr = nullptr\<rparr>, ?h)"
    by blast+
  from retain_never_blocks[OF l, of ?w 0 0 "heap (boot True [42])"] 3
  have "holder_ptr_ctor (heap (boot True [42])) ?lp =
            (\<lparr>life = Some 0, ptr = object (heap (boot True [42]) 0)\<rparr>,
             (heap (boot True [42]))(0 := (heap (boot True [42]) 0)\<lparr>controlBlock :=
                (controlBlock (heap (boot True [42]) 0))
                  \<lparr>readers := Suc (readers (controlBlock (heap (boot True [42]) 0)))\<rparr>\<rparr>))"
    by blast
  with 4 have "holder_ptr_ctor (heap (boot True [42])) ?lp
      = (\<lparr>life = Some 0, ptr = 42\<rparr>,
         (heap (boot True [42]))(0 := \<lparr>object = 42, controlBlock =
          \<lparr>readers = 1, writer = False, writers_waiting = 0, prefer_writer = True\<rparr>\<rparr>))"
    by simp
  with a show ?thesis by blast
qed

lemma holder_ptr_restores_lock_while_alive:
  assumes "liveness_ptr.life lp = Some a" "object (h a) \<noteq> nullptr"
  shows "holder_ptr_dtor (snd (holder_ptr_ctor h lp)) (fst (holder_ptr_ctor h lp)) = Some h"
  using assms
  by (auto simp: holder_ptr_ctor_def holder_ptr_dtor_def lifeline_retain_def lifeline_release_def
      pthread_rwlock_tryrdlock_def pthread_rwlock_unlock_def EBUSY_def)

text \<open>
  C4 fails after the teardown. The owner of a lifeline is destroyed, which leaves the
  lock free and the stored reference null; a holder constructed then takes a read lock
  (\<open>readers\<close> goes from 0 to 1) and \<open>retain\<close> returns the null reference, so the
  destructor, which tests \<open>ptr\<close>, releases nothing: \<open>readers\<close> stays 1.
\<close>

theorem holder_ptr_keeps_shared_lock_after_death:
  "living_ptr_dtor (heap (boot pw [42])) \<lparr>living_ptr.life = Some 0\<rparr>
     = Some ((heap (boot pw [42]))(0 := \<lparr>object = nullptr, controlBlock =
          \<lparr>readers = 0, writer = False, writers_waiting = 0, prefer_writer = pw\<rparr>\<rparr>))
   \<and> holder_ptr_ctor ((heap (boot pw [42]))(0 := \<lparr>object = nullptr, controlBlock =
          \<lparr>readers = 0, writer = False, writers_waiting = 0, prefer_writer = pw\<rparr>\<rparr>))
        \<lparr>liveness_ptr.life = Some 0\<rparr>
     = (\<lparr>life = Some 0, ptr = nullptr\<rparr>,
        (heap (boot pw [42]))(0 := \<lparr>object = nullptr, controlBlock =
          \<lparr>readers = 1, writer = False, writers_waiting = 0, prefer_writer = pw\<rparr>\<rparr>))
   \<and> holder_ptr_dtor ((heap (boot pw [42]))(0 := \<lparr>object = nullptr, controlBlock =
          \<lparr>readers = 1, writer = False, writers_waiting = 0, prefer_writer = pw\<rparr>\<rparr>))
        \<lparr>life = Some 0, ptr = nullptr\<rparr>
     = Some ((heap (boot pw [42]))(0 := \<lparr>object = nullptr, controlBlock =
          \<lparr>readers = 1, writer = False, writers_waiting = 0, prefer_writer = pw\<rparr>\<rparr>))"
  by (simp add: sys_eval)

text \<open>
  C5 fails: the move constructor and the assignment swap \<open>life\<close> only. A holder with
  pointer 42 is moved from: by the move constructor, the new holder's pointer is what its
  storage held and the source still converts to 42; by assignment to a holder that holds
  nothing, the assigned holder converts to null and the source still to 42, and neither
  destructor releases the read lock (\<open>readers\<close> stays 1).
\<close>

theorem holder_ptr_move_leaves_pointer_behind:
  "holder_ptr_ctor (heap (boot pw [42])) \<lparr>liveness_ptr.life = Some 0\<rparr>
     = (\<lparr>life = Some 0, ptr = 42\<rparr>,
        (heap (boot pw [42]))(0 := \<lparr>object = 42, controlBlock =
          \<lparr>readers = 1, writer = False, writers_waiting = 0, prefer_writer = pw\<rparr>\<rparr>))
   \<and> holder_ptr_move_ctor junk \<lparr>life = Some 0, ptr = 42\<rparr>
     = (\<lparr>life = Some 0, ptr = junk\<rparr>, \<lparr>life = None, ptr = 42\<rparr>)
   \<and> holder_ptr_get (fst (holder_ptr_move_ctor junk \<lparr>life = Some 0, ptr = 42\<rparr>)) = junk
   \<and> holder_ptr_get (snd (holder_ptr_move_ctor junk \<lparr>life = Some 0, ptr = 42\<rparr>)) = 42
   \<and> holder_ptr_assign junk
        ((heap (boot pw [42]))(0 := \<lparr>object = 42, controlBlock =
          \<lparr>readers = 1, writer = False, writers_waiting = 0, prefer_writer = pw\<rparr>\<rparr>))
        \<lparr>life = None, ptr = nullptr\<rparr> \<lparr>life = Some 0, ptr = 42\<rparr>
     = Some (\<lparr>life = Some 0, ptr = nullptr\<rparr>, \<lparr>life = None, ptr = 42\<rparr>,
        (heap (boot pw [42]))(0 := \<lparr>object = 42, controlBlock =
          \<lparr>readers = 1, writer = False, writers_waiting = 0, prefer_writer = pw\<rparr>\<rparr>))
   \<and> holder_ptr_dtor
        ((heap (boot pw [42]))(0 := \<lparr>object = 42, controlBlock =
          \<lparr>readers = 1, writer = False, writers_waiting = 0, prefer_writer = pw\<rparr>\<rparr>))
        \<lparr>life = Some 0, ptr = nullptr\<rparr>
     = Some ((heap (boot pw [42]))(0 := \<lparr>object = 42, controlBlock =
          \<lparr>readers = 1, writer = False, writers_waiting = 0, prefer_writer = pw\<rparr>\<rparr>))
   \<and> holder_ptr_dtor
        ((heap (boot pw [42]))(0 := \<lparr>object = 42, controlBlock =
          \<lparr>readers = 1, writer = False, writers_waiting = 0, prefer_writer = pw\<rparr>\<rparr>))
        \<lparr>life = None, ptr = 42\<rparr>
     = Some ((heap (boot pw [42]))(0 := \<lparr>object = 42, controlBlock =
          \<lparr>readers = 1, writer = False, writers_waiting = 0, prefer_writer = pw\<rparr>\<rparr>))"
  by (simp add: sys_eval holder_ptr_move_ctor_def holder_ptr_assign_def)

text \<open>
  C2 fails once a guard is moved, by the slip of C5: the moves carry \<open>life\<close> and leave
  \<open>ptr\<close> behind. Guard \<open>A\<close> acquires lifeline 0 (its \<open>retain\<close> returns 42) and guard
  \<open>B\<close> lifeline 1; \<open>B = std::move(A)\<close> gives \<open>B\<close> the lifeline of \<open>A\<close> and leaves \<open>A\<close>
  its pointer; \<open>B\<close> is destroyed and releases the read lock of lifeline 0; the owner of
  lifeline 0 is destroyed, and its \<open>waitForDeath\<close> returns with the reference nulled.
  \<open>A\<close>, still in scope, converts to 42, whatever the uninitialised \<open>ptr\<close> of the
  assignment's parameter held.
\<close>

theorem moved_from_guard_dangles:
  "(case holder_ptr_ctor (heap (boot pw [42, 43])) \<lparr>liveness_ptr.life = Some 0\<rparr> of (A, h1) \<Rightarrow>
    case holder_ptr_ctor h1 \<lparr>liveness_ptr.life = Some 1\<rparr> of (B, h2) \<Rightarrow>
    case holder_ptr_assign junk h2 B A of None \<Rightarrow> False | Some (B', A', h3) \<Rightarrow>
    case holder_ptr_dtor h3 B' of None \<Rightarrow> False | Some h4 \<Rightarrow>
    case living_ptr_dtor h4 \<lparr>living_ptr.life = Some 0\<rparr> of None \<Rightarrow> False | Some h5 \<Rightarrow>
      A = \<lparr>life = Some 0, ptr = 42\<rparr> \<and> B = \<lparr>life = Some 1, ptr = 43\<rparr>
      \<and> readers (controlBlock (h2 0)) = 1
      \<and> B' = \<lparr>life = Some 0, ptr = 43\<rparr> \<and> A' = \<lparr>life = None, ptr = 42\<rparr>
      \<and> readers (controlBlock (h4 0)) = 0
      \<and> object (h5 0) = nullptr
      \<and> holder_ptr_get A' = 42 \<and> holder_ptr_get A' \<noteq> nullptr)"
  by (simp add: sys_eval holder_ptr_move_ctor_def holder_ptr_assign_def)



end
